theory Spec2Isabelle
  imports Main "HOL-Library.Char_ord" "HOL-Library.List_Lexorder" "HOL-Library.Product_Lexorder"
begin

section \<open>Errors\<close>

text \<open>
  Every exception the two modules can raise is a value. The payload of an exception
  constructed from a message is that message. \<open>QueueNotFound\<close> is what the SQS service
  answers to \<open>get_queue_by_name\<close> for a queue that does not exist, and
  \<open>RetryBudgetExhausted\<close> wraps the last failure of a command that was retried.
\<close>

datatype error =
    ValueError string
  | Exception string
  | CalledProcessException string
  | KeyError string
  | IndexError
  | TypeError
  | QueueNotFound
  | RetryBudgetExhausted error

section \<open>Regular expressions, as far as \<open>IsRegion\<close> needs them\<close>

text \<open>
  \<open>IsRegion\<close> validates its argument with
  \<^verbatim>\<open>re.match(r'[a-z]{2}-[a-z]+-[0-9][a-z]?$', zone_or_region)\<close>.
  The pattern is kept as a syntax tree and matched by derivatives. A Python \<open>str\<close> is a
  sequence of code points and a \<open>string\<close> here a sequence of bytes; the pattern only
  accepts ASCII characters, so the two agree on every string the pattern accepts.
\<close>

datatype rexp =
    Zero
  | One
  | Lit char
  | Range char char
  | Seq rexp rexp
  | Alt rexp rexp
  | Star rexp

definition in_range :: "char \<Rightarrow> char \<Rightarrow> char \<Rightarrow> bool" where
  "in_range lo hi c = (lo \<le> c \<and> c \<le> hi)"

definition Plus :: "rexp \<Rightarrow> rexp" where
  "Plus r = Seq r (Star r)"

definition Opt :: "rexp \<Rightarrow> rexp" where
  "Opt r = Alt r One"

fun nullable :: "rexp \<Rightarrow> bool" where
  "nullable Zero = False"
| "nullable One = True"
| "nullable (Lit x) = False"
| "nullable (Range lo hi) = False"
| "nullable (Seq r s) = (nullable r \<and> nullable s)"
| "nullable (Alt r s) = (nullable r \<or> nullable s)"
| "nullable (Star r) = True"

fun deriv :: "char \<Rightarrow> rexp \<Rightarrow> rexp" where
  "deriv c Zero = Zero"
| "deriv c One = Zero"
| "deriv c (Lit x) = (if c = x then One else Zero)"
| "deriv c (Range lo hi) = (if in_range lo hi c then One else Zero)"
| "deriv c (Seq r s) =
     (if nullable r then Alt (Seq (deriv c r) s) (deriv c s) else Seq (deriv c r) s)"
| "deriv c (Alt r s) = Alt (deriv c r) (deriv c s)"
| "deriv c (Star r) = Seq (deriv c r) (Star r)"

text \<open>\<open>matches r s\<close>: the whole of \<open>s\<close> is a word of \<open>r\<close>.\<close>

fun matches :: "rexp \<Rightarrow> string \<Rightarrow> bool" where
  "matches r [] = nullable r"
| "matches r (c # cs) = matches (deriv c r) cs"

text \<open>
  \<^verbatim>\<open>re.match(p + '$', s)\<close> without the MULTILINE flag: the match starts at the first
  character, and \<open>$\<close> holds at the end of the string and also just before a newline
  that is the last character of the string.
\<close>

definition newline :: char where
  "newline = CHR 0x0A"

definition re_match_dollar :: "rexp \<Rightarrow> string \<Rightarrow> bool" where
  "re_match_dollar r s =
     (matches r s \<or> (s \<noteq> [] \<and> last s = newline \<and> matches r (butlast s)))"

section \<open>Zones and regions (providers/aws/util.py)\<close>

definition lower :: rexp where
  "lower = Range CHR ''a'' CHR ''z''"

definition digit :: rexp where
  "digit = Range CHR ''0'' CHR ''9''"

text \<open>The pattern \<^verbatim>\<open>[a-z]{2}-[a-z]+-[0-9][a-z]?\<close> (the \<open>$\<close> is in \<open>re_match_dollar\<close>).\<close>

definition zone_or_region_rexp :: rexp where
  "zone_or_region_rexp =
     Seq lower (Seq lower (Seq (Lit CHR ''-'') (Seq (Plus lower)
       (Seq (Lit CHR ''-'') (Seq digit (Opt lower))))))"

definition string_digits :: string where
  "string_digits = ''0123456789''"

definition IsRegion :: "string \<Rightarrow> error + bool" where
  "IsRegion zone_or_region =
     (if \<not> re_match_dollar zone_or_region_rexp zone_or_region
      then Inl (ValueError (zone_or_region @ '' is not a valid AWS zone or region name''))
      else (case zone_or_region of
              [] \<Rightarrow> Inl IndexError
            | _ # _ \<Rightarrow> Inr (last zone_or_region \<in> set string_digits)))"

definition GetRegionFromZone :: "string \<Rightarrow> error + string" where
  "GetRegionFromZone zone_or_region =
     (case IsRegion zone_or_region of
        Inl e \<Rightarrow> Inl e
      | Inr True \<Rightarrow> Inr zone_or_region
      | Inr False \<Rightarrow> Inr (butlast zone_or_region))"

text \<open>\<^verbatim>\<open>','.join(zones)\<close>\<close>

fun join :: "string \<Rightarrow> string list \<Rightarrow> string" where
  "join sep [] = []"
| "join sep [x] = x"
| "join sep (x # y # ys) = x @ sep @ join sep (y # ys)"

text \<open>
  The loop of \<open>GetRegionFromZones\<close>: \<open>region\<close> is the loop variable (\<open>None\<close> before the
  first zone), \<open>rest\<close> the zones still to visit, \<open>zones\<close> the whole argument, which the
  error message prints. The argument is taken in its iteration order.
\<close>

fun GetRegionFromZones_loop :: "string list \<Rightarrow> string option \<Rightarrow> string list \<Rightarrow> error + string option" where
  "GetRegionFromZones_loop zones region [] = Inr region"
| "GetRegionFromZones_loop zones region (zone # rest) =
     (case GetRegionFromZone zone of
        Inl e \<Rightarrow> Inl e
      | Inr current_region \<Rightarrow>
          (case region of
             None \<Rightarrow> GetRegionFromZones_loop zones (Some current_region) rest
           | Some r \<Rightarrow>
               if r \<noteq> current_region
               then Inl (Exception (''Not All zones are in the same region '' @ r @
                          '' not same as '' @ current_region @ ''. zones: '' @ join '','' zones))
               else GetRegionFromZones_loop zones region rest))"

definition GetRegionFromZones :: "string list \<Rightarrow> error + string option" where
  "GetRegionFromZones zones = GetRegionFromZones_loop zones None zones"

text \<open>
  The lexical pattern in the words of the specification: two lowercase letters, a hyphen,
  a lowercase word, a hyphen, a digit, and an optional trailing letter.
\<close>

definition is_lower :: "char \<Rightarrow> bool" where
  "is_lower c = (CHR ''a'' \<le> c \<and> c \<le> CHR ''z'')"

definition is_digit :: "char \<Rightarrow> bool" where
  "is_digit c = (CHR ''0'' \<le> c \<and> c \<le> CHR ''9'')"

fun lexical_pattern :: "string \<Rightarrow> bool" where
  "lexical_pattern (a # b # h # rest) =
     (is_lower a \<and> is_lower b \<and> h = CHR ''-'' \<and> takeWhile is_lower rest \<noteq> [] \<and>
      (case dropWhile is_lower rest of
         h' # d # suffix \<Rightarrow>
           h' = CHR ''-'' \<and> is_digit d \<and>
           (case suffix of [] \<Rightarrow> True | [c] \<Rightarrow> is_lower c | _ \<Rightarrow> False)
       | _ \<Rightarrow> False))"
| "lexical_pattern _ = False"

section \<open>Tags (providers/aws/util.py)\<close>

text \<open>
  A tag dictionary is the list of its items in iteration order, with pairwise distinct
  keys. \<^verbatim>\<open>sorted\<close> orders the items as tuples: by key, then by value; strings are compared
  character by character (\<open>HOL-Library.List_Lexorder\<close> over \<open>HOL-Library.Char_ord\<close>).
\<close>

type_synonym tags = "(string \<times> string) list"

definition format_tag :: "string \<times> string \<Rightarrow> string" where
  "format_tag = (\<lambda>(k, v). ''Key='' @ k @ '',Value='' @ v)"

definition FormatTags :: "tags \<Rightarrow> string list" where
  "FormatTags tags_dict = map format_tag (sort tags_dict)"

definition format_tag_specification :: "string \<times> string \<Rightarrow> string" where
  "format_tag_specification = (\<lambda>(k, v). ''{Key='' @ k @ '',Value='' @ v @ ''}'')"

definition FormatTagSpecifications :: "string \<Rightarrow> tags \<Rightarrow> string" where
  "FormatTagSpecifications resource_type tags_dict =
     (let tags = join '','' (map format_tag_specification tags_dict)
      in ''ResourceType='' @ resource_type @ '',Tags=['' @ tags @ '']'')"

section \<open>Retryable commands (providers/aws/util.py)\<close>

text \<open>
  \<open>vm_util.IssueCommand\<close> is not part of the sources at hand; it is a parameter
  \<open>issue\<close>. Called with \<open>raise_on_failure=False\<close> it returns the triple of standard
  output, standard error and exit code. Its fourth argument here is the number of
  processes spawned before this call, so that a command may answer differently each time
  it is run. The state of a runner counts the processes it has spawned and records the
  delays it has slept between attempts.
\<close>

type_synonym CommandResult = "string \<times> string \<times> int"

record runner =
  invocations :: nat
  slept :: "nat list"

type_synonym ('e, 'p) IssueCommand = "string list \<Rightarrow> 'e \<Rightarrow> 'p \<Rightarrow> nat \<Rightarrow> CommandResult"

text \<open>
  The body of \<open>IssueRetryableCommand\<close>, one attempt: the call of \<open>IssueCommand\<close>, and then
  the two checks on what it returned (\<open>check_result\<close>).
\<close>

definition check_result :: "CommandResult \<Rightarrow> error + string \<times> string" where
  "check_result = (\<lambda>(stdout, stderr, retcode).
     if retcode \<noteq> 0
     then Inl (CalledProcessException (''Command returned a non-zero exit code.'' @ [newline]))
     else if stderr \<noteq> []
     then Inl (CalledProcessException (''The command had output on stderr:'' @ [newline] @ stderr))
     else Inr (stdout, stderr))"

definition IssueRetryableCommand_body ::
  "('e, 'p) IssueCommand \<Rightarrow> string list \<Rightarrow> 'e \<Rightarrow> 'p \<Rightarrow> runner \<Rightarrow> (error + string \<times> string) \<times> runner" where
  "IssueRetryableCommand_body issue cmd env suppress_failure st =
     (check_result (issue cmd env suppress_failure (invocations st)),
      st\<lparr>invocations := Suc (invocations st)\<rparr>)"

text \<open>
  Modelled from the spec: the decorator \<open>vm_util.Retry\<close> that wraps
  \<open>IssueRetryableCommand\<close> is not part of the sources at hand. The specification has it
  repeat the wrapped run under an exponential-backoff policy with a bounded retry count
  until a run succeeds or the retry budget (the maximum number of attempts) is exhausted,
  and then fail with \<open>RetryBudgetExhausted\<close> wrapping the last failure. The policy is
  explicit: the budget and the first delay, which doubles after every failed attempt.
\<close>

record retry_policy =
  max_attempts :: nat
  base_delay :: nat

text \<open>
  \<open>Retry_loop base f n i st\<close>: \<open>n\<close> attempts remain after the one about to be made, and
  \<open>i\<close> attempts have failed so far.
\<close>

fun Retry_loop ::
  "nat \<Rightarrow> (runner \<Rightarrow> (error + 'a) \<times> runner) \<Rightarrow> nat \<Rightarrow> nat \<Rightarrow> runner \<Rightarrow> (error + 'a) \<times> runner" where
  "Retry_loop base f 0 i st =
     (case f st of
        (Inr r, st') \<Rightarrow> (Inr r, st')
      | (Inl e, st') \<Rightarrow> (Inl (RetryBudgetExhausted e), st'))"
| "Retry_loop base f (Suc n) i st =
     (case f st of
        (Inr r, st') \<Rightarrow> (Inr r, st')
      | (Inl e, st') \<Rightarrow> Retry_loop base f n (Suc i) (st'\<lparr>slept := slept st' @ [base * 2 ^ i]\<rparr>))"

definition Retry ::
  "retry_policy \<Rightarrow> (runner \<Rightarrow> (error + 'a) \<times> runner) \<Rightarrow> runner \<Rightarrow> (error + 'a) \<times> runner" where
  "Retry policy f st = Retry_loop (base_delay policy) f (max_attempts policy - 1) 0 st"

definition IssueRetryableCommand ::
  "retry_policy \<Rightarrow> ('e, 'p) IssueCommand \<Rightarrow> string list \<Rightarrow> 'e \<Rightarrow> 'p \<Rightarrow> runner \<Rightarrow>
     (error + string \<times> string) \<times> runner" where
  "IssueRetryableCommand policy issue cmd env suppress_failure =
     Retry policy (IssueRetryableCommand_body issue cmd env suppress_failure)"

text \<open>
  A scripted command, to run the model on: the results of its successive runs, and the
  last of them for every run after those.
\<close>

fun scripted :: "CommandResult list \<Rightarrow> ('e, 'p) IssueCommand" where
  "scripted [] cmd env suppress_failure k = ([], [], 0)"
| "scripted [r] cmd env suppress_failure k = r"
| "scripted (r # r' # rs) cmd env suppress_failure 0 = r"
| "scripted (r # r' # rs) cmd env suppress_failure (Suc k) = scripted (r' # rs) cmd env suppress_failure k"

section \<open>The SQS client (data/messaging_service/aws_sqs_client.py)\<close>

text \<open>
  The values that Boto3 hands back: strings, lists and dictionaries with string keys
  (a dictionary is the list of its items).
\<close>

datatype pyval =
    PyStr string
  | PyList "pyval list"
  | PyDict "(string \<times> pyval) list"

text \<open>\<^verbatim>\<open>v[key]\<close> for a string \<open>key\<close>, and \<^verbatim>\<open>v[0]\<close>.\<close>

fun getitem :: "pyval \<Rightarrow> string \<Rightarrow> error + pyval" where
  "getitem (PyDict d) key = (case map_of d key of None \<Rightarrow> Inl (KeyError key) | Some v \<Rightarrow> Inr v)"
| "getitem (PyList xs) key = Inl TypeError"
| "getitem (PyStr s) key = Inl TypeError"

fun getitem0 :: "pyval \<Rightarrow> error + pyval" where
  "getitem0 (PyList []) = Inl IndexError"
| "getitem0 (PyList (x # xs)) = Inr x"
| "getitem0 (PyStr []) = Inl IndexError"
| "getitem0 (PyStr (c # cs)) = Inr (PyStr [c])"
| "getitem0 (PyDict d) = Inl (KeyError ''0'')"

text \<open>
  Boto3 and the SQS service behind it are outside the repository: they are a parameter,
  a record of the four calls the client makes, each over the state \<open>'w\<close> of the service.
  A queue resource is identified by its URL. \<open>TIMEOUT\<close> comes from
  \<open>messaging_service_client\<close>, which is not part of the sources at hand; it is a
  parameter of \<open>_pull_message\<close>. The methods \<open>_publish_message\<close>, \<open>_pull_message\<close> and
  \<open>_acknowledge_received_message\<close> are written without the leading underscore.
\<close>

record 'w sqs =
  get_queue_by_name :: "string \<Rightarrow> string \<Rightarrow> 'w \<Rightarrow> (error + string) \<times> 'w"
  send_message :: "string \<Rightarrow> string \<Rightarrow> 'w \<Rightarrow> (error + pyval) \<times> 'w"
  receive_message :: "string \<Rightarrow> nat \<Rightarrow> nat \<Rightarrow> 'w \<Rightarrow> (error + pyval) \<times> 'w"
  delete_message :: "string \<Rightarrow> pyval \<Rightarrow> 'w \<Rightarrow> (error + unit) \<times> 'w"

record AWSSQSInterface =
  region_name :: string
  queue_name :: string
  queue :: string

text \<open>\<open>AWSSQSInterface.__init__\<close>\<close>

definition AWSSQSInterface_init ::
  "'w sqs \<Rightarrow> string \<Rightarrow> string \<Rightarrow> 'w \<Rightarrow> (error + AWSSQSInterface) \<times> 'w" where
  "AWSSQSInterface_init boto3 region queue_nm w =
     (case get_queue_by_name boto3 region queue_nm w of
        (Inl e, w') \<Rightarrow> (Inl e, w')
      | (Inr q, w') \<Rightarrow> (Inr \<lparr>region_name = region, queue_name = queue_nm, queue = q\<rparr>, w'))"

definition publish_message ::
  "'w sqs \<Rightarrow> AWSSQSInterface \<Rightarrow> string \<Rightarrow> 'w \<Rightarrow> (error + pyval) \<times> 'w" where
  "publish_message boto3 self message w = send_message boto3 (queue self) message w"

definition pull_message ::
  "'w sqs \<Rightarrow> nat \<Rightarrow> AWSSQSInterface \<Rightarrow> 'w \<Rightarrow> (error + pyval) \<times> 'w" where
  "pull_message boto3 TIMEOUT self w = receive_message boto3 (queue self) 1 TIMEOUT w"

definition acknowledge_received_message ::
  "'w sqs \<Rightarrow> AWSSQSInterface \<Rightarrow> pyval \<Rightarrow> 'w \<Rightarrow> (error + unit) \<times> 'w" where
  "acknowledge_received_message boto3 self response w =
     (case getitem response ''Messages'' of
        Inl e \<Rightarrow> (Inl e, w)
      | Inr messages \<Rightarrow>
          (case getitem0 messages of
             Inl e \<Rightarrow> (Inl e, w)
           | Inr message \<Rightarrow>
               (case getitem message ''ReceiptHandle'' of
                  Inl e \<Rightarrow> (Inl e, w)
                | Inr receipt_handle \<Rightarrow> delete_message boto3 (queue self) receipt_handle w)))"

text \<open>
  A small stand-in for the service, to run the client on: the queues that exist, as
  pairs of region and name, and the bodies of the messages waiting in the queue. A
  receive on an empty queue answers without a \<open>Messages\<close> entry.
\<close>

record sqs_world =
  existing :: "(string \<times> string) list"
  waiting :: "string list"

definition queue_url :: "string \<Rightarrow> string \<Rightarrow> string" where
  "queue_url region name = ''https://sqs.'' @ region @ ''.amazonaws.com/'' @ name"

definition local_sqs :: "sqs_world sqs" where
  "local_sqs =
     \<lparr>get_queue_by_name = (\<lambda>region name w.
        (if (region, name) \<in> set (existing w) then Inr (queue_url region name)
         else Inl QueueNotFound, w)),
      send_message = (\<lambda>url body w.
        (Inr (PyDict [(''MessageId'', PyStr body)]), w\<lparr>waiting := waiting w @ [body]\<rparr>)),
      receive_message = (\<lambda>url n wait w.
        (case waiting w of
           [] \<Rightarrow> Inr (PyDict [(''ResponseMetadata'', PyDict [])])
         | m # ms \<Rightarrow> Inr (PyDict [(''Messages'',
             PyList [PyDict [(''Body'', PyStr m), (''ReceiptHandle'', PyStr m)]])]), w)),
      delete_message = (\<lambda>url handle w.
        (Inr (), w\<lparr>waiting := filter (\<lambda>m. PyStr m \<noteq> handle) (waiting w)\<rparr>))\<rparr>"

section \<open>What the matcher accepts\<close>

lemma matches_Zero: "matches Zero w = False"
  by (induction w) simp_all

lemma matches_One: "matches One w = (w = [])"
  by (cases w) (simp_all add: matches_Zero)

lemma matches_Alt: "matches (Alt r s) w = (matches r w \<or> matches s w)"
  by (induction w arbitrary: r s) simp_all

lemma matches_Lit: "matches (Lit x) w = (w = [x])"
  by (cases w) (auto simp: matches_One matches_Zero)

lemma matches_Range: "matches (Range lo hi) w = (\<exists>c. w = [c] \<and> in_range lo hi c)"
  by (cases w) (auto simp: matches_One matches_Zero)

lemma matches_Seq:
  "matches (Seq r s) w = (\<exists>u v. w = u @ v \<and> matches r u \<and> matches s v)"
proof (induction w arbitrary: r)
  case Nil
  show ?case by simp
next
  case (Cons c cs)
  have split: "(\<exists>u v. c # cs = u @ v \<and> matches r u \<and> matches s v) =
        ((nullable r \<and> matches (deriv c s) cs) \<or>
         (\<exists>u v. cs = u @ v \<and> matches (deriv c r) u \<and> matches s v))"
    (is "?L = ?R")
  proof
    assume ?L
    then obtain u v where uv: "c # cs = u @ v" "matches r u" "matches s v" by blast
    show ?R
    proof (cases u)
      case Nil
      with uv show ?thesis by auto
    next
      case (Cons d u')
      with uv have "cs = u' @ v" "matches (deriv c r) u'" by auto
      with uv show ?thesis by blast
    qed
  next
    assume ?R
    then show ?L
    proof
      assume "nullable r \<and> matches (deriv c s) cs"
      then have "c # cs = [] @ (c # cs) \<and> matches r [] \<and> matches s (c # cs)" by simp
      then show ?L by blast
    next
      assume "\<exists>u v. cs = u @ v \<and> matches (deriv c r) u \<and> matches s v"
      then obtain u v where "cs = u @ v" "matches (deriv c r) u" "matches s v" by blast
      then have "c # cs = (c # u) @ v \<and> matches r (c # u) \<and> matches s v" by simp
      then show ?L by blast
    qed
  qed
  show ?case
    unfolding split using Cons.IH by (auto simp: matches_Alt)
qed

lemma matches_Star_Range:
  "matches (Star (Range lo hi)) w = (\<forall>c\<in>set w. in_range lo hi c)"
  by (induction w) (auto simp: matches_Seq matches_One matches_Zero)

lemma matches_Range_Seq:
  "matches (Seq (Range lo hi) r) s = (\<exists>c cs. s = c # cs \<and> in_range lo hi c \<and> matches r cs)"
  by (cases s) (auto simp: matches_Seq matches_One matches_Zero)

lemma matches_Lit_Seq:
  "matches (Seq (Lit x) r) s = (\<exists>cs. s = x # cs \<and> matches r cs)"
  by (cases s) (auto simp: matches_Seq matches_One matches_Zero)

lemma matches_Plus_Range_Seq:
  "matches (Seq (Plus (Range lo hi)) r) s =
     (\<exists>w v. s = w @ v \<and> w \<noteq> [] \<and> (\<forall>c\<in>set w. in_range lo hi c) \<and> matches r v)"
  (is "?L = ?R")
proof
  assume ?L
  then obtain u v where uv: "s = u @ v" "matches (Plus (Range lo hi)) u" "matches r v"
    by (auto simp: matches_Seq)
  from uv(2) have "u \<noteq> [] \<and> (\<forall>c\<in>set u. in_range lo hi c)"
    by (auto simp: Plus_def matches_Seq matches_Range matches_Star_Range)
  with uv(1,3) show ?R by blast
next
  assume ?R
  then obtain w v where wv: "s = w @ v" "w \<noteq> []" "\<forall>c\<in>set w. in_range lo hi c" "matches r v"
    by blast
  then obtain c w' where w: "w = c # w'" by (cases w) auto
  with wv have "matches (Plus (Range lo hi)) w"
    by (simp add: Plus_def matches_Seq matches_One matches_Star_Range)
  with wv show ?L by (auto simp: matches_Seq)
qed

lemma in_range_lower: "in_range CHR ''a'' CHR ''z'' c = is_lower c"
  by (simp add: in_range_def is_lower_def)

lemma in_range_digit: "in_range CHR ''0'' CHR ''9'' c = is_digit c"
  by (simp add: in_range_def is_digit_def)

lemma not_lower_hyphen: "\<not> is_lower CHR ''-''"
  by (simp add: is_lower_def)

lemma matches_Opt_Range:
  "matches (Opt (Range lo hi)) t = (t = [] \<or> (\<exists>c. t = [c] \<and> in_range lo hi c))"
  by (auto simp: Opt_def matches_Alt matches_One matches_Range)

lemma matches_lower_Seq:
  "matches (Seq lower r) s = (\<exists>c cs. s = c # cs \<and> is_lower c \<and> matches r cs)"
  by (simp add: lower_def matches_Range_Seq in_range_lower)

lemma matches_digit_Seq:
  "matches (Seq digit r) s = (\<exists>c cs. s = c # cs \<and> is_digit c \<and> matches r cs)"
  by (simp add: digit_def matches_Range_Seq in_range_digit)

lemma matches_Plus_lower_Seq:
  "matches (Seq (Plus lower) r) s =
     (\<exists>w v. s = w @ v \<and> w \<noteq> [] \<and> (\<forall>c\<in>set w. is_lower c) \<and> matches r v)"
  by (simp add: lower_def matches_Plus_Range_Seq in_range_lower)

lemma matches_Opt_lower:
  "matches (Opt lower) t = (t = [] \<or> (\<exists>c. t = [c] \<and> is_lower c))"
  by (simp add: lower_def matches_Opt_Range in_range_lower)

lemma matches_suffix:
  "matches (Seq (Lit CHR ''-'') (Seq digit (Opt lower))) v =
     (\<exists>d t. v = CHR ''-'' # d # t \<and> is_digit d \<and> (t = [] \<or> (\<exists>c. t = [c] \<and> is_lower c)))"
  by (simp add: matches_Lit_Seq matches_digit_Seq matches_Opt_lower) blast

lemma matches_middle:
  "matches (Seq (Plus lower) (Seq (Lit CHR ''-'') (Seq digit (Opt lower)))) v =
     (\<exists>w d t. v = w @ CHR ''-'' # d # t \<and> w \<noteq> [] \<and> (\<forall>c\<in>set w. is_lower c) \<and>
        is_digit d \<and> (t = [] \<or> (\<exists>c. t = [c] \<and> is_lower c)))"
  unfolding matches_Plus_lower_Seq matches_suffix by blast

lemma matches_zone_or_region_rexp:
  "matches zone_or_region_rexp s =
     (\<exists>a b w d t. s = a # b # CHR ''-'' # w @ CHR ''-'' # d # t \<and>
        is_lower a \<and> is_lower b \<and> w \<noteq> [] \<and> (\<forall>c\<in>set w. is_lower c) \<and> is_digit d \<and>
        (t = [] \<or> (\<exists>c. t = [c] \<and> is_lower c)))"
proof -
  have "matches zone_or_region_rexp s =
     (\<exists>a b v. s = a # b # CHR ''-'' # v \<and> is_lower a \<and> is_lower b \<and>
        matches (Seq (Plus lower) (Seq (Lit CHR ''-'') (Seq digit (Opt lower)))) v)"
    unfolding zone_or_region_rexp_def
    by (simp only: matches_lower_Seq matches_Lit_Seq) blast
  then show ?thesis unfolding matches_middle by blast
qed

lemma lexical_pattern_iff:
  "lexical_pattern s =
     (\<exists>a b w d t. s = a # b # CHR ''-'' # w @ CHR ''-'' # d # t \<and>
        is_lower a \<and> is_lower b \<and> w \<noteq> [] \<and> (\<forall>c\<in>set w. is_lower c) \<and> is_digit d \<and>
        (t = [] \<or> (\<exists>c. t = [c] \<and> is_lower c)))"
  (is "?L = ?R")
proof
  assume L: ?L
  then obtain a b h rest where s: "s = a # b # h # rest"
    by (cases s rule: lexical_pattern.cases) simp_all
  from L s have ab: "is_lower a" "is_lower b" "h = CHR ''-''"
    and w: "takeWhile is_lower rest \<noteq> []"
    and r: "(case dropWhile is_lower rest of
         h' # d # suffix \<Rightarrow>
           h' = CHR ''-'' \<and> is_digit d \<and>
           (case suffix of [] \<Rightarrow> True | [c] \<Rightarrow> is_lower c | _ \<Rightarrow> False)
       | _ \<Rightarrow> False)"
    by simp_all
  from r obtain d t where dw: "dropWhile is_lower rest = CHR ''-'' # d # t"
    and d: "is_digit d" and t: "t = [] \<or> (\<exists>c. t = [c] \<and> is_lower c)"
    by (auto split: list.splits)
  have "rest = takeWhile is_lower rest @ CHR ''-'' # d # t"
    using takeWhile_dropWhile_id [of is_lower rest] dw by simp
  moreover have "\<forall>c\<in>set (takeWhile is_lower rest). is_lower c"
    by (auto dest: set_takeWhileD)
  ultimately have "s = a # b # CHR ''-'' # takeWhile is_lower rest @ CHR ''-'' # d # t \<and>
        is_lower a \<and> is_lower b \<and> takeWhile is_lower rest \<noteq> [] \<and>
        (\<forall>c\<in>set (takeWhile is_lower rest). is_lower c) \<and> is_digit d \<and>
        (t = [] \<or> (\<exists>c. t = [c] \<and> is_lower c))"
    using s ab w d t by simp
  then show ?R by blast
next
  assume ?R
  then obtain a b w d t where s: "s = a # b # CHR ''-'' # w @ CHR ''-'' # d # t"
    and ab: "is_lower a" "is_lower b" and w: "w \<noteq> []" "\<forall>c\<in>set w. is_lower c"
    and d: "is_digit d" and t: "t = [] \<or> (\<exists>c. t = [c] \<and> is_lower c)"
    by blast
  have tw: "takeWhile is_lower (w @ CHR ''-'' # d # t) = w"
    using w(2) by (simp add: takeWhile_tail not_lower_hyphen)
  have dw: "dropWhile is_lower (w @ CHR ''-'' # d # t) = CHR ''-'' # d # t"
    using w(2) by (simp add: dropWhile_append3 not_lower_hyphen)
  from t have t': "(case t of [] \<Rightarrow> True | [c] \<Rightarrow> is_lower c | _ \<Rightarrow> False)"
    by auto
  show ?L unfolding s lexical_pattern.simps tw dw using ab w(1) d t' by simp
qed

lemma matches_lexical_pattern: "matches zone_or_region_rexp s = lexical_pattern s"
  by (simp only: matches_zone_or_region_rexp lexical_pattern_iff)

lemma in_string_digits: "(c \<in> set string_digits) = is_digit c"
proof
  assume "c \<in> set string_digits"
  then show "is_digit c" by (auto simp: string_digits_def is_digit_def)
next
  assume "is_digit c"
  then have "48 \<le> (of_char c :: nat)" "(of_char c :: nat) \<le> 57"
    by (simp_all add: is_digit_def less_eq_char_def)
  then have "(of_char c :: nat) \<in> {48, 49, 50, 51, 52, 53, 54, 55, 56, 57}"
    by (simp only: insert_iff empty_iff) arith
  then have "(of_char c :: nat) \<in> of_char ` set string_digits"
    by (simp add: string_digits_def)
  then show "c \<in> set string_digits"
    by (auto simp: image_iff)
qed

lemma lower_not_digit: "is_lower c \<Longrightarrow> \<not> is_digit c"
  by (simp add: is_lower_def is_digit_def less_eq_char_def)

lemma not_lower_newline: "\<not> is_lower newline" "\<not> is_digit newline"
  by (simp_all add: is_lower_def is_digit_def newline_def)

lemma lexical_pattern_cases:
  assumes "lexical_pattern z"
  obtains (region) "z \<noteq> []" "is_digit (last z)" "\<not> is_lower (last z)"
  | (zone) "z \<noteq> []" "is_lower (last z)" "\<not> is_digit (last z)"
      "lexical_pattern (butlast z)" "is_digit (last (butlast z))" "butlast z \<noteq> []"
proof -
  from assms obtain a b w d t where z: "z = a # b # CHR ''-'' # w @ CHR ''-'' # d # t"
    and ab: "is_lower a" "is_lower b" and w: "w \<noteq> []" "\<forall>c\<in>set w. is_lower c"
    and d: "is_digit d" and t: "t = [] \<or> (\<exists>c. t = [c] \<and> is_lower c)"
    unfolding lexical_pattern_iff by blast
  from t show thesis
  proof
    assume "t = []"
    with z d have "z \<noteq> []" "is_digit (last z)" by simp_all
    then show thesis using region lower_not_digit by blast
  next
    assume "\<exists>c. t = [c] \<and> is_lower c"
    then obtain c where c: "t = [c]" "is_lower c" by blast
    with z have l: "z \<noteq> []" "last z = c" and bl: "butlast z = a # b # CHR ''-'' # w @ [CHR ''-'', d]"
      by (simp_all add: butlast_append)
    from bl ab w d have "lexical_pattern (butlast z)"
      unfolding lexical_pattern_iff by auto
    moreover from bl d have "is_digit (last (butlast z))" "butlast z \<noteq> []" by simp_all
    ultimately show thesis using zone l c lower_not_digit by simp
  qed
qed

lemma lexical_pattern_no_newline: "lexical_pattern z \<Longrightarrow> last z \<noteq> newline"
  by (erule lexical_pattern_cases) (auto simp: not_lower_newline)

lemma re_match_zone_or_region:
  "re_match_dollar zone_or_region_rexp z =
     (lexical_pattern z \<or> (z \<noteq> [] \<and> last z = newline \<and> lexical_pattern (butlast z)))"
  by (simp add: re_match_dollar_def matches_lexical_pattern)

lemma IsRegion_lexical:
  assumes "lexical_pattern z"
  shows "IsRegion z = Inr (is_digit (last z))"
proof -
  from assms have "z \<noteq> []" by (rule lexical_pattern_cases)
  then obtain x xs where "z = x # xs" by (cases z) auto
  with assms show ?thesis
    by (simp add: IsRegion_def re_match_zone_or_region in_string_digits)
qed

lemma GetRegionFromZone_lexical:
  "lexical_pattern z \<Longrightarrow>
     GetRegionFromZone z = Inr (if is_lower (last z) then butlast z else z)"
  by (frule IsRegion_lexical, erule lexical_pattern_cases)
     (simp_all add: GetRegionFromZone_def)

lemma IsRegion_rejects:
  "\<not> lexical_pattern z \<Longrightarrow> \<not> (z \<noteq> [] \<and> last z = newline \<and> lexical_pattern (butlast z)) \<Longrightarrow>
     IsRegion z = Inl (ValueError (z @ '' is not a valid AWS zone or region name''))"
  by (simp add: IsRegion_def re_match_zone_or_region)

lemma GetRegionFromZone_idempotent_lexical:
  assumes "lexical_pattern z" "GetRegionFromZone z = Inr r"
  shows "lexical_pattern r \<and> IsRegion r = Inr True \<and> GetRegionFromZone r = Inr r"
  using assms(1)
proof (cases rule: lexical_pattern_cases)
  case region
  with assms have "r = z" by (simp add: GetRegionFromZone_lexical)
  with assms(1) region show ?thesis
    by (simp add: IsRegion_lexical GetRegionFromZone_lexical)
next
  case zone
  with assms have "r = butlast z" by (simp add: GetRegionFromZone_lexical)
  with zone lower_not_digit [of "last (butlast z)"] show ?thesis
    by (auto simp add: IsRegion_lexical GetRegionFromZone_lexical)
qed

section \<open>The loop of \<open>GetRegionFromZones\<close>\<close>

lemma loop_same_region:
  "\<forall>z\<in>set rest. GetRegionFromZone z = Inr r \<Longrightarrow>
     GetRegionFromZones_loop zones (Some r) rest = Inr (Some r)"
  by (induction rest) simp_all

lemma loop_mismatch:
  "\<forall>z\<in>set rest. \<exists>r. GetRegionFromZone z = Inr r \<Longrightarrow>
   \<exists>z\<in>set rest. GetRegionFromZone z \<noteq> Inr r0 \<Longrightarrow>
     \<exists>msg. GetRegionFromZones_loop zones (Some r0) rest = Inl (Exception msg)"
proof (induction rest)
  case Nil
  then show ?case by simp
next
  case (Cons z rest)
  from Cons.prems(1) obtain r where r: "GetRegionFromZone z = Inr r" by auto
  show ?case
  proof (cases "r = r0")
    case True
    with r Cons.prems have "\<exists>z\<in>set rest. GetRegionFromZone z \<noteq> Inr r0" by auto
    with Cons.IH Cons.prems(1) r True show ?thesis by simp
  next
    case False
    with r show ?thesis by simp
  qed
qed

lemma loop_never_returns:
  "\<exists>z\<in>set rest. \<exists>r. GetRegionFromZone z = Inr r \<and> r \<noteq> r0 \<Longrightarrow>
     \<exists>e. GetRegionFromZones_loop zones (Some r0) rest = Inl e"
proof (induction rest)
  case Nil
  then show ?case by simp
next
  case (Cons z rest)
  show ?case
  proof (cases "GetRegionFromZone z")
    case (Inl e)
    then show ?thesis by simp
  next
    case (Inr r)
    show ?thesis
    proof (cases "r = r0")
      case True
      with Inr Cons.prems have "\<exists>z\<in>set rest. \<exists>r. GetRegionFromZone z = Inr r \<and> r \<noteq> r0" by auto
      with Cons.IH Inr True show ?thesis by simp
    next
      case False
      with Inr show ?thesis by simp
    qed
  qed
qed

section \<open>Sorting a dictionary's items\<close>

lemma sorted_keys:
  fixes es :: "('a::linorder \<times> 'b::linorder) list"
  shows "sorted es \<Longrightarrow> sorted (map fst es)"
  by (induction es) (auto simp: less_eq_prod_def)

lemma sort_distinct_keys:
  fixes d :: "('a::linorder \<times> 'b::linorder) list"
  assumes "distinct (map fst d)"
  shows "sorted_wrt (<) (map fst (sort d))"
proof -
  from assms have "distinct (map fst (sort d))"
    by (simp add: distinct_map)
  moreover have "sorted (map fst (sort d))" by (rule sorted_keys) simp
  ultimately show ?thesis by (simp add: strict_sorted_iff)
qed

lemma sort_same_items:
  fixes d1 d2 :: "('a::linorder \<times> 'b::linorder) list"
  assumes "distinct (map fst d1)" "distinct (map fst d2)" "set d1 = set d2"
  shows "sort d1 = sort d2"
proof -
  from assms have "distinct (sort d1)" "distinct (sort d2)"
    by (simp_all add: distinct_map)
  moreover from assms(3) have "set (sort d1) = set (sort d2)" by simp
  ultimately show ?thesis
    by (intro sorted_distinct_set_unique) simp_all
qed

section \<open>Zones and regions: the claims\<close>

text \<open>
  Claim C4. \<open>GetRegionFromZone "us-west-1a"\<close> is \<open>"us-west-1"\<close>, \<open>IsRegion "us-west-1"\<close> is
  true and \<open>IsRegion "us-west-1a"\<close> is false. For every string of the lexical pattern (two
  lowercase letters, hyphen, lowercase word, hyphen, digit, optional trailing letter),
  \<open>GetRegionFromZone\<close> strips the trailing letter when there is one and returns the string
  unchanged otherwise.
\<close>

theorem GetRegionFromZone_on_pattern:
  "GetRegionFromZone ''us-west-1a'' = Inr ''us-west-1'' \<and>
   IsRegion ''us-west-1'' = Inr True \<and>
   IsRegion ''us-west-1a'' = Inr False \<and>
   (lexical_pattern z \<longrightarrow>
      GetRegionFromZone z = Inr (if is_lower (last z) then butlast z else z))"
proof -
  have "GetRegionFromZone ''us-west-1a'' = Inr ''us-west-1''" by code_simp
  moreover have "IsRegion ''us-west-1'' = Inr True" by code_simp
  moreover have "IsRegion ''us-west-1a'' = Inr False" by code_simp
  ultimately show ?thesis using GetRegionFromZone_lexical by blast
qed

theorem GetRegionFromZone_on_pattern_witness:
  "lexical_pattern ''eu-central-1b'' \<and> GetRegionFromZone ''eu-central-1b'' = Inr ''eu-central-1''
   \<and> lexical_pattern ''eu-central-1'' \<and> GetRegionFromZone ''eu-central-1'' = Inr ''eu-central-1''"
proof -
  have a: "lexical_pattern ''eu-central-1b''" by code_simp
  have b: "lexical_pattern ''eu-central-1''" by code_simp
  have la: "is_lower (last ''eu-central-1b'')" by code_simp
  have lb: "\<not> is_lower (last ''eu-central-1'')" by code_simp
  from GetRegionFromZone_on_pattern [of "''eu-central-1b''"] a la
  have "GetRegionFromZone ''eu-central-1b'' = Inr ''eu-central-1''" by simp
  moreover from GetRegionFromZone_on_pattern [of "''eu-central-1''"] b lb
  have "GetRegionFromZone ''eu-central-1'' = Inr ''eu-central-1''" by simp
  ultimately show ?thesis using a b by simp
qed

text \<open>
  Claim C5. For a non-empty collection of zones that all derive to the same region \<open>r\<close>,
  \<open>GetRegionFromZones\<close> returns \<open>r\<close>, whatever the order of iteration. When every zone derives
  to a region and two of them derive to different ones, it raises the mismatch exception;
  and whenever two zones derive to different regions it raises and returns no value. The
  two examples of the specification are the last two conjuncts.
\<close>

theorem GetRegionFromZones_common_region:
  "(zones \<noteq> [] \<and> (\<forall>z\<in>set zones. GetRegionFromZone z = Inr r) \<longrightarrow>
      GetRegionFromZones zones = Inr (Some r)) \<and>
   ((\<forall>z\<in>set zones. \<exists>r. GetRegionFromZone z = Inr r) \<and>
    (\<exists>z1\<in>set zones. \<exists>z2\<in>set zones. GetRegionFromZone z1 \<noteq> GetRegionFromZone z2) \<longrightarrow>
      (\<exists>msg. GetRegionFromZones zones = Inl (Exception msg))) \<and>
   ((\<exists>z1\<in>set zones. \<exists>z2\<in>set zones. \<exists>r1 r2.
        GetRegionFromZone z1 = Inr r1 \<and> GetRegionFromZone z2 = Inr r2 \<and> r1 \<noteq> r2) \<longrightarrow>
      (\<exists>e. GetRegionFromZones zones = Inl e)) \<and>
   GetRegionFromZones [''us-west-1a'', ''us-west-1b''] = Inr (Some ''us-west-1'') \<and>
   GetRegionFromZones [''us-west-1a'', ''us-east-1a''] =
     Inl (Exception (''Not All zones are in the same region us-west-1 not same as us-east-1. '' @
                      ''zones: us-west-1a,us-east-1a''))"
proof (intro conjI impI)
  assume "zones \<noteq> [] \<and> (\<forall>z\<in>set zones. GetRegionFromZone z = Inr r)"
  then obtain z rest where "zones = z # rest" "GetRegionFromZone z = Inr r"
    "\<forall>z\<in>set rest. GetRegionFromZone z = Inr r"
    by (cases zones) auto
  then show "GetRegionFromZones zones = Inr (Some r)"
    using loop_same_region [of rest r zones] by (simp add: GetRegionFromZones_def)
next
  assume h: "(\<forall>z\<in>set zones. \<exists>r. GetRegionFromZone z = Inr r) \<and>
    (\<exists>z1\<in>set zones. \<exists>z2\<in>set zones. GetRegionFromZone z1 \<noteq> GetRegionFromZone z2)"
  then obtain z rest where zs: "zones = z # rest" by (cases zones) auto
  with h obtain r0 where r0: "GetRegionFromZone z = Inr r0" by auto
  have "\<exists>z'\<in>set rest. GetRegionFromZone z' \<noteq> Inr r0"
  proof (rule ccontr)
    assume "\<not> (\<exists>z'\<in>set rest. GetRegionFromZone z' \<noteq> Inr r0)"
    with r0 zs have "\<forall>z'\<in>set zones. GetRegionFromZone z' = Inr r0" by auto
    with h show False by metis
  qed
  moreover from h zs have "\<forall>z\<in>set rest. \<exists>r. GetRegionFromZone z = Inr r" by auto
  ultimately have "\<exists>msg. GetRegionFromZones_loop zones (Some r0) rest = Inl (Exception msg)"
    by (rule loop_mismatch [rotated])
  with zs r0 show "\<exists>msg. GetRegionFromZones zones = Inl (Exception msg)"
    by (simp add: GetRegionFromZones_def)
next
  assume "\<exists>z1\<in>set zones. \<exists>z2\<in>set zones. \<exists>r1 r2.
        GetRegionFromZone z1 = Inr r1 \<and> GetRegionFromZone z2 = Inr r2 \<and> r1 \<noteq> r2"
  then obtain z1 z2 r1 r2 where m: "z1 \<in> set zones" "z2 \<in> set zones"
    "GetRegionFromZone z1 = Inr r1" "GetRegionFromZone z2 = Inr r2" "r1 \<noteq> r2" by blast
  then obtain z rest where zs: "zones = z # rest" by (cases zones) auto
  show "\<exists>e. GetRegionFromZones zones = Inl e"
  proof (cases "GetRegionFromZone z")
    case (Inl e)
    with zs show ?thesis by (simp add: GetRegionFromZones_def)
  next
    case (Inr r0)
    have "\<exists>z'\<in>set rest. \<exists>r. GetRegionFromZone z' = Inr r \<and> r \<noteq> r0"
    proof (cases "r1 = r0")
      case True
      with m Inr zs have "z2 \<in> set rest" by auto
      with m True show ?thesis by blast
    next
      case False
      with m Inr zs have "z1 \<in> set rest" by auto
      with m False show ?thesis by blast
    qed
    then have "\<exists>e. GetRegionFromZones_loop zones (Some r0) rest = Inl e"
      by (rule loop_never_returns)
    with zs Inr show ?thesis by (simp add: GetRegionFromZones_def)
  qed
next
  show "GetRegionFromZones [''us-west-1a'', ''us-west-1b''] = Inr (Some ''us-west-1'')"
    by code_simp
next
  show "GetRegionFromZones [''us-west-1a'', ''us-east-1a''] =
     Inl (Exception (''Not All zones are in the same region us-west-1 not same as us-east-1. '' @
                      ''zones: us-west-1a,us-east-1a''))"
    by code_simp
qed

theorem GetRegionFromZones_common_region_witness:
  "GetRegionFromZones [''eu-west-2a'', ''eu-west-2'', ''eu-west-2b''] = Inr (Some ''eu-west-2'') \<and>
   (\<exists>msg. GetRegionFromZones [''eu-west-2a'', ''sa-east-1c''] = Inl (Exception msg))"
proof -
  have a: "GetRegionFromZone ''eu-west-2a'' = Inr ''eu-west-2''" by code_simp
  have b: "GetRegionFromZone ''eu-west-2'' = Inr ''eu-west-2''" by code_simp
  have c: "GetRegionFromZone ''eu-west-2b'' = Inr ''eu-west-2''" by code_simp
  have d: "GetRegionFromZone ''sa-east-1c'' = Inr ''sa-east-1''" by code_simp
  have h1: "[''eu-west-2a'', ''eu-west-2'', ''eu-west-2b''] \<noteq> [] \<and>
     (\<forall>z\<in>set [''eu-west-2a'', ''eu-west-2'', ''eu-west-2b'']. GetRegionFromZone z = Inr ''eu-west-2'')"
    using a b c by simp
  have h2: "(\<forall>z\<in>set [''eu-west-2a'', ''sa-east-1c'']. \<exists>r. GetRegionFromZone z = Inr r) \<and>
     (\<exists>z1\<in>set [''eu-west-2a'', ''sa-east-1c'']. \<exists>z2\<in>set [''eu-west-2a'', ''sa-east-1c''].
        GetRegionFromZone z1 \<noteq> GetRegionFromZone z2)"
    using a d by auto
  from GetRegionFromZones_common_region
         [of "[''eu-west-2a'', ''eu-west-2'', ''eu-west-2b'']" "''eu-west-2''"] h1
  have "GetRegionFromZones [''eu-west-2a'', ''eu-west-2'', ''eu-west-2b''] = Inr (Some ''eu-west-2'')"
    by blast
  moreover from GetRegionFromZones_common_region
         [of "[''eu-west-2a'', ''sa-east-1c'']" "''eu-west-2''"] h2
  have "\<exists>msg. GetRegionFromZones [''eu-west-2a'', ''sa-east-1c''] = Inl (Exception msg)"
    by blast
  ultimately show ?thesis by blast
qed

text \<open>
  Claim C7 says that \<open>IsRegion\<close> and \<open>GetRegionFromZone\<close> return a value for every input
  string. They do not: on a string that the validation rejects both raise \<open>ValueError\<close>.
\<close>

theorem IsRegion_raises_ValueError:
  "IsRegion ''uswest1'' = Inl (ValueError ''uswest1 is not a valid AWS zone or region name'') \<and>
   GetRegionFromZone ''uswest1'' = Inl (ValueError ''uswest1 is not a valid AWS zone or region name'')"
  by code_simp

text \<open>
  Claim C7, as amended. On every string of the lexical pattern \<open>IsRegion\<close> returns a
  boolean (whether the last character is a digit) and \<open>GetRegionFromZone\<close> returns a
  string; on every string that is neither of the pattern nor a string of the pattern
  followed by one newline, both raise \<open>ValueError\<close> with the message naming the string.
\<close>

theorem IsRegion_GetRegionFromZone_defined_on_pattern:
  "(lexical_pattern z \<longrightarrow>
      IsRegion z = Inr (is_digit (last z)) \<and>
      GetRegionFromZone z = Inr (if is_digit (last z) then z else butlast z)) \<and>
   (\<not> lexical_pattern z \<and> \<not> (z \<noteq> [] \<and> last z = newline \<and> lexical_pattern (butlast z)) \<longrightarrow>
      IsRegion z = Inl (ValueError (z @ '' is not a valid AWS zone or region name'')) \<and>
      GetRegionFromZone z = Inl (ValueError (z @ '' is not a valid AWS zone or region name'')))"
proof (intro conjI impI)
  assume lp: "lexical_pattern z"
  then show "IsRegion z = Inr (is_digit (last z))" by (rule IsRegion_lexical)
  then show "GetRegionFromZone z = Inr (if is_digit (last z) then z else butlast z)"
    by (simp add: GetRegionFromZone_def)
next
  assume "\<not> lexical_pattern z \<and> \<not> (z \<noteq> [] \<and> last z = newline \<and> lexical_pattern (butlast z))"
  then show e: "IsRegion z = Inl (ValueError (z @ '' is not a valid AWS zone or region name''))"
    using IsRegion_rejects by blast
  then show "GetRegionFromZone z = Inl (ValueError (z @ '' is not a valid AWS zone or region name''))"
    by (simp add: GetRegionFromZone_def)
qed

theorem IsRegion_GetRegionFromZone_defined_on_pattern_witness:
  "lexical_pattern ''ap-south-2c'' \<and> IsRegion ''ap-south-2c'' = Inr False \<and>
   GetRegionFromZone ''ap-south-2c'' = Inr ''ap-south-2'' \<and>
   \<not> lexical_pattern ''AP-south-2'' \<and>
   IsRegion ''AP-south-2'' = Inl (ValueError ''AP-south-2 is not a valid AWS zone or region name'')"
proof -
  have a: "lexical_pattern ''ap-south-2c''" by code_simp
  have b: "\<not> lexical_pattern ''AP-south-2'' \<and>
     \<not> (''AP-south-2'' \<noteq> [] \<and> last ''AP-south-2'' = newline \<and> lexical_pattern (butlast ''AP-south-2''))"
    by code_simp
  have d: "\<not> is_digit (last ''ap-south-2c'')" by code_simp
  from IsRegion_GetRegionFromZone_defined_on_pattern [of "''ap-south-2c''"] a d
  have "IsRegion ''ap-south-2c'' = Inr False \<and> GetRegionFromZone ''ap-south-2c'' = Inr ''ap-south-2''"
    by simp
  moreover from IsRegion_GetRegionFromZone_defined_on_pattern [of "''AP-south-2''"] b
  have "IsRegion ''AP-south-2'' = Inl (ValueError ''AP-south-2 is not a valid AWS zone or region name'')"
    by simp
  ultimately show ?thesis using a b by simp
qed

text \<open>
  Claim C10 says that \<open>GetRegionFromZone\<close> is idempotent wherever \<open>IsRegion\<close> does not
  raise, and that its result is a region. On \<open>"us-west-1a\n"\<close> the validation passes, since
  \<open>$\<close> also holds before a final newline; \<open>IsRegion\<close> answers false, \<open>GetRegionFromZone\<close>
  strips the newline and returns \<open>"us-west-1a"\<close>, which is a zone and not a region, and a
  second application returns \<open>"us-west-1"\<close>.
\<close>

theorem GetRegionFromZone_trailing_newline:
  "IsRegion (''us-west-1a'' @ [newline]) = Inr False \<and>
   GetRegionFromZone (''us-west-1a'' @ [newline]) = Inr ''us-west-1a'' \<and>
   IsRegion ''us-west-1a'' = Inr False \<and>
   GetRegionFromZone ''us-west-1a'' = Inr ''us-west-1''"
  by code_simp

section \<open>Tags: the claims\<close>

text \<open>
  Claim C8. For every tag dictionary \<open>FormatTags\<close> returns the strings \<open>Key=k,Value=v\<close> of
  its items in strictly increasing order of the keys; two dictionaries with the same items
  give the same list, whatever their iteration orders; and
  \<open>FormatTags {"b": "2", "a": "1"}\<close> is \<open>["Key=a,Value=1", "Key=b,Value=2"]\<close>.
\<close>

theorem FormatTags_sorted_by_key:
  "(distinct (map fst d) \<longrightarrow>
      (\<exists>es. FormatTags d = map (\<lambda>(k, v). ''Key='' @ k @ '',Value='' @ v) es \<and>
            set es = set d \<and> length es = length d \<and> sorted_wrt (<) (map fst es))) \<and>
   (distinct (map fst d) \<and> distinct (map fst d') \<and> set d = set d' \<longrightarrow>
      FormatTags d = FormatTags d') \<and>
   FormatTags [(''b'', ''2''), (''a'', ''1'')] = [''Key=a,Value=1'', ''Key=b,Value=2'']"
proof (intro conjI impI)
  assume "distinct (map fst d)"
  then have "FormatTags d = map (\<lambda>(k, v). ''Key='' @ k @ '',Value='' @ v) (sort d) \<and>
            set (sort d) = set d \<and> length (sort d) = length d \<and>
            sorted_wrt (<) (map fst (sort d))"
    by (simp add: FormatTags_def format_tag_def sort_distinct_keys)
  then show "\<exists>es. FormatTags d = map (\<lambda>(k, v). ''Key='' @ k @ '',Value='' @ v) es \<and>
            set es = set d \<and> length es = length d \<and> sorted_wrt (<) (map fst es)"
    by blast
next
  assume "distinct (map fst d) \<and> distinct (map fst d') \<and> set d = set d'"
  then show "FormatTags d = FormatTags d'"
    using sort_same_items [of d d'] by (simp add: FormatTags_def)
next
  show "FormatTags [(''b'', ''2''), (''a'', ''1'')] = [''Key=a,Value=1'', ''Key=b,Value=2'']"
    by code_simp
qed

theorem FormatTags_sorted_by_key_witness:
  "FormatTags [(''owner'', ''pkb''), (''Name'', ''vm-0''), (''env'', ''test'')] =
   FormatTags [(''env'', ''test''), (''owner'', ''pkb''), (''Name'', ''vm-0'')] \<and>
   (\<exists>es. FormatTags [(''owner'', ''pkb''), (''Name'', ''vm-0''), (''env'', ''test'')] =
           map (\<lambda>(k, v). ''Key='' @ k @ '',Value='' @ v) es \<and>
         sorted_wrt (<) (map fst es))"
proof -
  let ?d = "[(''owner'', ''pkb''), (''Name'', ''vm-0''), (''env'', ''test'')]"
  let ?d' = "[(''env'', ''test''), (''owner'', ''pkb''), (''Name'', ''vm-0'')]"
  have h: "distinct (map fst ?d) \<and> distinct (map fst ?d') \<and> set ?d = set ?d'"
    by auto
  from FormatTags_sorted_by_key [of ?d ?d'] h show ?thesis by blast
qed

text \<open>
  Claim C6 says that \<open>FormatTagSpecifications\<close> lists the tags with their keys sorted, so
  that the iteration order of the dictionary does not show. It lists them in iteration
  order: the dictionary \<open>{"b": "2", "a": "1"}\<close> gives the keys as \<open>b, a\<close>, and the same
  items inserted as \<open>{"a": "1", "b": "2"}\<close> give another string. \<open>FormatTags\<close> sorts, and
  gives one list for both.
\<close>

theorem FormatTagSpecifications_iteration_order:
  "FormatTagSpecifications ''instance'' [(''b'', ''2''), (''a'', ''1'')] =
     ''ResourceType=instance,Tags=[{Key=b,Value=2},{Key=a,Value=1}]'' \<and>
   FormatTagSpecifications ''instance'' [(''a'', ''1''), (''b'', ''2'')] =
     ''ResourceType=instance,Tags=[{Key=a,Value=1},{Key=b,Value=2}]'' \<and>
   FormatTags [(''b'', ''2''), (''a'', ''1'')] = FormatTags [(''a'', ''1''), (''b'', ''2'')]"
  by code_simp

section \<open>The retry loop\<close>

lemma Retry_loop_success:
  fixes issue :: "('e, 'p) IssueCommand"
  shows "\<forall>j<k. isl (check_result (issue cmd env sf (invocations st + j))) \<Longrightarrow>
   check_result (issue cmd env sf (invocations st + k)) = Inr res \<Longrightarrow> k \<le> n \<Longrightarrow>
   Retry_loop base (IssueRetryableCommand_body issue cmd env sf) n i st =
     (Inr res, st\<lparr>invocations := invocations st + Suc k,
                   slept := slept st @ map (\<lambda>j. base * 2 ^ j) [i..<i + k]\<rparr>)"
proof (induction k arbitrary: n i st)
  case 0
  then show ?case
    by (cases n) (simp_all add: IssueRetryableCommand_body_def)
next
  case (Suc k)
  from Suc.prems(3) obtain n' where n: "n = Suc n'" "k \<le> n'" by (cases n) auto
  let ?st = "st\<lparr>invocations := Suc (invocations st), slept := slept st @ [base * 2 ^ i]\<rparr>"
  from Suc.prems(1) obtain e where e: "check_result (issue cmd env sf (invocations st)) = Inl e"
    by (cases "check_result (issue cmd env sf (invocations st))") force+
  have a: "\<forall>j<k. isl (check_result (issue cmd env sf (invocations ?st + j)))"
    using Suc.prems(1) by auto
  have b: "check_result (issue cmd env sf (invocations ?st + k)) = Inr res"
    using Suc.prems(2) by simp
  have "Retry_loop base (IssueRetryableCommand_body issue cmd env sf) n i st =
        Retry_loop base (IssueRetryableCommand_body issue cmd env sf) n' (Suc i) ?st"
    using e n by (simp add: IssueRetryableCommand_body_def)
  also have "\<dots> = (Inr res, ?st\<lparr>invocations := invocations ?st + Suc k,
                   slept := slept ?st @ map (\<lambda>j. base * 2 ^ j) [Suc i..<Suc i + k]\<rparr>)"
    by (rule Suc.IH [OF a b n(2)])
  also have "\<dots> = (Inr res, st\<lparr>invocations := invocations st + Suc (Suc k),
                   slept := slept st @ map (\<lambda>j. base * 2 ^ j) [i..<i + Suc k]\<rparr>)"
    by (simp del: upt_Suc add: upt_conv_Cons)
  finally show ?case .
qed

lemma Retry_loop_exhausted:
  fixes issue :: "('e, 'p) IssueCommand"
  shows "\<forall>j\<le>n. isl (check_result (issue cmd env sf (invocations st + j))) \<Longrightarrow>
   Retry_loop base (IssueRetryableCommand_body issue cmd env sf) n i st =
     (Inl (RetryBudgetExhausted (projl (check_result (issue cmd env sf (invocations st + n))))),
      st\<lparr>invocations := invocations st + Suc n,
         slept := slept st @ map (\<lambda>j. base * 2 ^ j) [i..<i + n]\<rparr>)"
proof (induction n arbitrary: i st)
  case 0
  then obtain e where "check_result (issue cmd env sf (invocations st)) = Inl e"
    by (cases "check_result (issue cmd env sf (invocations st))") force+
  then show ?case by (simp add: IssueRetryableCommand_body_def)
next
  case (Suc n)
  let ?st = "st\<lparr>invocations := Suc (invocations st), slept := slept st @ [base * 2 ^ i]\<rparr>"
  from Suc.prems obtain e where e: "check_result (issue cmd env sf (invocations st)) = Inl e"
    by (cases "check_result (issue cmd env sf (invocations st))") force+
  have a: "\<forall>j\<le>n. isl (check_result (issue cmd env sf (invocations ?st + j)))"
    using Suc.prems by auto
  have "Retry_loop base (IssueRetryableCommand_body issue cmd env sf) (Suc n) i st =
        Retry_loop base (IssueRetryableCommand_body issue cmd env sf) n (Suc i) ?st"
    using e by (simp add: IssueRetryableCommand_body_def)
  also have "\<dots> = (Inl (RetryBudgetExhausted (projl (check_result (issue cmd env sf (invocations ?st + n))))),
      ?st\<lparr>invocations := invocations ?st + Suc n,
         slept := slept ?st @ map (\<lambda>j. base * 2 ^ j) [Suc i..<Suc i + n]\<rparr>)"
    by (rule Suc.IH [OF a])
  also have "\<dots> = (Inl (RetryBudgetExhausted (projl (check_result (issue cmd env sf (invocations st + Suc n))))),
      st\<lparr>invocations := invocations st + Suc (Suc n),
         slept := slept st @ map (\<lambda>j. base * 2 ^ j) [i..<i + Suc n]\<rparr>)"
    by (simp del: upt_Suc add: upt_conv_Cons)
  finally show ?case .
qed

lemma check_result_nonzero:
  "retcode \<noteq> 0 \<Longrightarrow> check_result (out, err, retcode) =
     Inl (CalledProcessException (''Command returned a non-zero exit code.'' @ [newline]))"
  by (simp add: check_result_def)

lemma check_result_ok: "check_result (out, [], 0) = Inr (out, [])"
  by (simp add: check_result_def)

lemma check_result_Inr_iff:
  "(check_result r = Inr res) = (\<exists>out. r = (out, [], 0) \<and> res = (out, []))"
  by (cases r) (auto simp: check_result_def)

section \<open>Retryable commands: the claims\<close>

text \<open>
  Claim C1. One attempt of \<open>IssueRetryableCommand\<close>: when the command exits with code zero
  and has written to standard error, the attempt raises \<open>CalledProcessException\<close>; when
  it exits with code zero and standard error is empty, the attempt returns the pair of
  standard output and standard error.
\<close>

theorem IssueRetryableCommand_body_zero_exit:
  fixes issue :: "('e, 'p) IssueCommand"
  shows
  "(issue cmd env suppress_failure (invocations st) = (out, err, 0) \<and> err \<noteq> [] \<longrightarrow>
      fst (IssueRetryableCommand_body issue cmd env suppress_failure st) =
        Inl (CalledProcessException (''The command had output on stderr:'' @ [newline] @ err))) \<and>
   (issue cmd env suppress_failure (invocations st) = (out, [], 0) \<longrightarrow>
      fst (IssueRetryableCommand_body issue cmd env suppress_failure st) = Inr (out, []))"
  by (simp add: IssueRetryableCommand_body_def check_result_def)

theorem IssueRetryableCommand_body_zero_exit_witness:
  "fst (IssueRetryableCommand_body (scripted [(''{}'', ''An error occurred'', 0)])
          [''aws'', ''ec2'', ''create-tags''] () () \<lparr>invocations = 0, slept = []\<rparr>) =
     Inl (CalledProcessException (''The command had output on stderr:'' @ [newline] @ ''An error occurred'')) \<and>
   fst (IssueRetryableCommand_body (scripted [(''{}'', [], 0)])
          [''aws'', ''ec2'', ''create-tags''] () () \<lparr>invocations = 0, slept = []\<rparr>) =
     Inr (''{}'', [])"
proof -
  let ?st = "\<lparr>invocations = 0, slept = []\<rparr>"
  let ?cmd = "[''aws'', ''ec2'', ''create-tags'']"
  have a: "scripted [(''{}'', ''An error occurred'', 0)] ?cmd () () (invocations ?st) =
             (''{}'', ''An error occurred'', 0) \<and> ''An error occurred'' \<noteq> []"
    by simp
  have b: "scripted [(''{}'', [], 0)] ?cmd () () (invocations ?st) = (''{}'', [], 0)"
    by simp
  from IssueRetryableCommand_body_zero_exit
         [of "scripted [(''{}'', ''An error occurred'', 0)]" ?cmd "()" "()" ?st "''{}''" "''An error occurred''"] a
  have "fst (IssueRetryableCommand_body (scripted [(''{}'', ''An error occurred'', 0)]) ?cmd () () ?st) =
     Inl (CalledProcessException (''The command had output on stderr:'' @ [newline] @ ''An error occurred''))"
    by blast
  moreover from IssueRetryableCommand_body_zero_exit
         [of "scripted [(''{}'', [], 0)]" ?cmd "()" "()" ?st "''{}''" "[]"] b
  have "fst (IssueRetryableCommand_body (scripted [(''{}'', [], 0)]) ?cmd () () ?st) = Inr (''{}'', [])"
    by blast
  ultimately show ?thesis by blast
qed

text \<open>
  Claim C2. \<open>IssueRetryableCommand\<close> repeats the attempt, sleeping a delay that doubles
  each time, until an attempt succeeds or the budget of attempts is used up. When the
  first \<open>K - 1\<close> attempts fail and the \<open>K\<close>-th succeeds, with \<open>K\<close> within the budget, it
  returns the result of that attempt after exactly \<open>K\<close> runs of the command; this holds
  in particular when the failures are non-zero exit codes. When every attempt within the
  budget fails, it raises \<open>RetryBudgetExhausted\<close> wrapping the failure of the last
  attempt, after as many runs as the budget allows.
\<close>

theorem IssueRetryableCommand_retries:
  fixes issue :: "('e, 'p) IssueCommand"
  shows
  "(0 < K \<and> K \<le> max_attempts policy \<and>
    (\<forall>j<K - 1. isl (check_result (issue cmd env sf (invocations st + j)))) \<and>
    check_result (issue cmd env sf (invocations st + (K - 1))) = Inr res \<longrightarrow>
      IssueRetryableCommand policy issue cmd env sf st =
        (Inr res, st\<lparr>invocations := invocations st + K,
                      slept := slept st @ map (\<lambda>j. base_delay policy * 2 ^ j) [0..<K - 1]\<rparr>)) \<and>
   (0 < K \<and> K \<le> max_attempts policy \<and>
    (\<forall>j<K - 1. snd (snd (issue cmd env sf (invocations st + j))) \<noteq> 0) \<and>
    issue cmd env sf (invocations st + (K - 1)) = (out, [], 0) \<longrightarrow>
      IssueRetryableCommand policy issue cmd env sf st =
        (Inr (out, []), st\<lparr>invocations := invocations st + K,
                      slept := slept st @ map (\<lambda>j. base_delay policy * 2 ^ j) [0..<K - 1]\<rparr>)) \<and>
   (0 < max_attempts policy \<and>
    (\<forall>j<max_attempts policy. isl (check_result (issue cmd env sf (invocations st + j)))) \<longrightarrow>
      IssueRetryableCommand policy issue cmd env sf st =
        (Inl (RetryBudgetExhausted
               (projl (check_result (issue cmd env sf (invocations st + (max_attempts policy - 1)))))),
         st\<lparr>invocations := invocations st + max_attempts policy,
            slept := slept st @ map (\<lambda>j. base_delay policy * 2 ^ j) [0..<max_attempts policy - 1]\<rparr>))"
proof -
  have general: "IssueRetryableCommand policy issue cmd env sf st =
        (Inr res', st\<lparr>invocations := invocations st + K,
                      slept := slept st @ map (\<lambda>j. base_delay policy * 2 ^ j) [0..<K - 1]\<rparr>)"
    if K: "0 < K" "K \<le> max_attempts policy"
      and f: "\<forall>j<K - 1. isl (check_result (issue cmd env sf (invocations st + j)))"
      and s: "check_result (issue cmd env sf (invocations st + (K - 1))) = Inr res'"
    for res'
  proof -
    from K have le: "K - 1 \<le> max_attempts policy - 1" by simp
    from K have "Suc (K - 1) = K" by simp
    with f s le Retry_loop_success [where k = "K - 1" and issue = issue and cmd = cmd and env = env
        and sf = sf and st = st and res = res' and n = "max_attempts policy - 1"
        and base = "base_delay policy" and i = 0]
    show ?thesis by (simp add: IssueRetryableCommand_def Retry_def)
  qed
  have nonzero: "isl (check_result (issue cmd env sf k))"
    if "snd (snd (issue cmd env sf k)) \<noteq> 0" for k
    using that by (cases "issue cmd env sf k") (simp add: check_result_def)
  have exhausted: "IssueRetryableCommand policy issue cmd env sf st =
        (Inl (RetryBudgetExhausted
               (projl (check_result (issue cmd env sf (invocations st + (max_attempts policy - 1)))))),
         st\<lparr>invocations := invocations st + max_attempts policy,
            slept := slept st @ map (\<lambda>j. base_delay policy * 2 ^ j) [0..<max_attempts policy - 1]\<rparr>)"
    if N: "0 < max_attempts policy"
      and f: "\<forall>j<max_attempts policy. isl (check_result (issue cmd env sf (invocations st + j)))"
  proof -
    from N f have f': "\<forall>j\<le>max_attempts policy - 1. isl (check_result (issue cmd env sf (invocations st + j)))"
      by auto
    from N have "Suc (max_attempts policy - 1) = max_attempts policy" by simp
    with f' Retry_loop_exhausted [where n = "max_attempts policy - 1" and issue = issue and cmd = cmd
        and env = env and sf = sf and st = st and base = "base_delay policy" and i = 0]
    show ?thesis by (simp add: IssueRetryableCommand_def Retry_def)
  qed
  show ?thesis
  proof (intro conjI impI)
    assume "0 < K \<and> K \<le> max_attempts policy \<and>
      (\<forall>j<K - 1. isl (check_result (issue cmd env sf (invocations st + j)))) \<and>
      check_result (issue cmd env sf (invocations st + (K - 1))) = Inr res"
    then show "IssueRetryableCommand policy issue cmd env sf st =
        (Inr res, st\<lparr>invocations := invocations st + K,
                      slept := slept st @ map (\<lambda>j. base_delay policy * 2 ^ j) [0..<K - 1]\<rparr>)"
      using general by blast
  next
    assume h: "0 < K \<and> K \<le> max_attempts policy \<and>
      (\<forall>j<K - 1. snd (snd (issue cmd env sf (invocations st + j))) \<noteq> 0) \<and>
      issue cmd env sf (invocations st + (K - 1)) = (out, [], 0)"
    then have "\<forall>j<K - 1. isl (check_result (issue cmd env sf (invocations st + j)))"
      using nonzero by blast
    moreover from h have "issue cmd env sf (invocations st + (K - 1)) = (out, [], 0)" by blast
    then have "check_result (issue cmd env sf (invocations st + (K - 1))) = Inr (out, [])"
      by (simp only: check_result_ok)
    ultimately show "IssueRetryableCommand policy issue cmd env sf st =
        (Inr (out, []), st\<lparr>invocations := invocations st + K,
                      slept := slept st @ map (\<lambda>j. base_delay policy * 2 ^ j) [0..<K - 1]\<rparr>)"
      using general h by blast
  next
    assume "0 < max_attempts policy \<and>
      (\<forall>j<max_attempts policy. isl (check_result (issue cmd env sf (invocations st + j))))"
    then show "IssueRetryableCommand policy issue cmd env sf st =
        (Inl (RetryBudgetExhausted
               (projl (check_result (issue cmd env sf (invocations st + (max_attempts policy - 1)))))),
         st\<lparr>invocations := invocations st + max_attempts policy,
            slept := slept st @ map (\<lambda>j. base_delay policy * 2 ^ j) [0..<max_attempts policy - 1]\<rparr>)"
      using exhausted by blast
  qed
qed

theorem IssueRetryableCommand_retries_witness:
  "IssueRetryableCommand \<lparr>max_attempts = 4, base_delay = 1\<rparr>
      (scripted [([], ''Throttling'', 255), ([], [], 1), (''{}'', [], 0)])
      [''aws'', ''ec2'', ''create-tags''] () () \<lparr>invocations = 0, slept = []\<rparr> =
     (Inr (''{}'', []), \<lparr>invocations = 3, slept = [1, 2]\<rparr>) \<and>
   IssueRetryableCommand \<lparr>max_attempts = 2, base_delay = 1\<rparr>
      (scripted [([], ''Throttling'', 255), ([], ''warning'', 0)])
      [''aws'', ''ec2'', ''create-tags''] () () \<lparr>invocations = 0, slept = []\<rparr> =
     (Inl (RetryBudgetExhausted (CalledProcessException
             (''The command had output on stderr:'' @ [newline] @ ''warning''))),
      \<lparr>invocations = 2, slept = [1]\<rparr>)"
proof -
  let ?st = "\<lparr>invocations = 0, slept = []\<rparr>"
  let ?cmd = "[''aws'', ''ec2'', ''create-tags'']"
  let ?p = "\<lparr>max_attempts = 4, base_delay = 1\<rparr>"
  let ?q = "\<lparr>max_attempts = 2, base_delay = 1\<rparr>"
  let ?a = "scripted [([], ''Throttling'', 255), ([], [], 1), (''{}'', [], 0)] :: (unit, unit) IssueCommand"
  let ?b = "scripted [([], ''Throttling'', 255), ([], ''warning'', 0)] :: (unit, unit) IssueCommand"
  have three: "(3::nat) - 1 = 2" "(2::nat) - 1 = Suc 0" "(2::nat) = Suc (Suc 0)" by simp_all
  have a: "0 < (3::nat) \<and> 3 \<le> max_attempts ?p \<and>
    (\<forall>j<3 - 1. snd (snd (?a ?cmd () () (invocations ?st + j))) \<noteq> 0) \<and>
    ?a ?cmd () () (invocations ?st + (3 - 1)) = (''{}'', [], 0)"
    by (auto simp: three less_Suc_eq)
  have b: "0 < max_attempts ?q \<and>
    (\<forall>j<max_attempts ?q. isl (check_result (?b ?cmd () () (invocations ?st + j))))"
    by (auto simp: three less_Suc_eq check_result_def)
  have c: "projl (check_result (?b ?cmd () () (invocations ?st + (max_attempts ?q - 1)))) =
     CalledProcessException (''The command had output on stderr:'' @ [newline] @ ''warning'')"
    by (simp add: three check_result_def)
  from IssueRetryableCommand_retries [of 3 ?p ?a ?cmd "()" "()" ?st _ "''{}''"] a
  have "IssueRetryableCommand ?p ?a ?cmd () () ?st =
     (Inr (''{}'', []), ?st\<lparr>invocations := invocations ?st + 3,
                      slept := slept ?st @ map (\<lambda>j. base_delay ?p * 2 ^ j) [0..<3 - 1]\<rparr>)"
    by blast
  then have r1: "IssueRetryableCommand ?p ?a ?cmd () () ?st =
     (Inr (''{}'', []), \<lparr>invocations = 3, slept = [1, 2]\<rparr>)"
    by (simp add: three upt_rec)
  from IssueRetryableCommand_retries [of 3 ?q ?b ?cmd "()" "()" ?st] b
  have "IssueRetryableCommand ?q ?b ?cmd () () ?st =
        (Inl (RetryBudgetExhausted
               (projl (check_result (?b ?cmd () () (invocations ?st + (max_attempts ?q - 1)))))),
         ?st\<lparr>invocations := invocations ?st + max_attempts ?q,
            slept := slept ?st @ map (\<lambda>j. base_delay ?q * 2 ^ j) [0..<max_attempts ?q - 1]\<rparr>)"
    by blast
  then have r2: "IssueRetryableCommand ?q ?b ?cmd () () ?st =
     (Inl (RetryBudgetExhausted (CalledProcessException
             (''The command had output on stderr:'' @ [newline] @ ''warning''))),
      \<lparr>invocations = 2, slept = [1]\<rparr>)"
    unfolding c by (simp add: three upt_rec)
  from r1 r2 show ?thesis by blast
qed

section \<open>The SQS client: the claims\<close>

text \<open>
  Claim C3. The constructor of the client resolves the queue itself: when the lookup of
  the queue by name fails (as it does for a queue that does not exist), the constructor
  fails with that error, and a client that has been constructed holds the queue that the
  lookup returned. A failure of the constructor is a failure of that lookup.
\<close>

theorem AWSSQSInterface_init_resolves_queue:
  "(get_queue_by_name boto3 region name w = (Inl e, w') \<longrightarrow>
      AWSSQSInterface_init boto3 region name w = (Inl e, w')) \<and>
   (AWSSQSInterface_init boto3 region name w = (Inr self, w') \<longrightarrow>
      get_queue_by_name boto3 region name w = (Inr (queue self), w') \<and>
      region_name self = region \<and> queue_name self = name) \<and>
   (AWSSQSInterface_init boto3 region name w = (Inl e, w') \<longrightarrow>
      get_queue_by_name boto3 region name w = (Inl e, w'))"
  by (cases "get_queue_by_name boto3 region name w"; cases "fst (get_queue_by_name boto3 region name w)")
     (auto simp: AWSSQSInterface_init_def)

theorem AWSSQSInterface_init_resolves_queue_witness:
  "AWSSQSInterface_init local_sqs ''us-west-1'' ''perfkit_queue''
      \<lparr>existing = [(''us-east-1'', ''perfkit_queue'')], waiting = []\<rparr> =
     (Inl QueueNotFound, \<lparr>existing = [(''us-east-1'', ''perfkit_queue'')], waiting = []\<rparr>) \<and>
   get_queue_by_name local_sqs ''us-east-1'' ''perfkit_queue''
      \<lparr>existing = [(''us-east-1'', ''perfkit_queue'')], waiting = []\<rparr> =
     (Inr (queue \<lparr>region_name = ''us-east-1'', queue_name = ''perfkit_queue'',
                  queue = queue_url ''us-east-1'' ''perfkit_queue''\<rparr>),
      \<lparr>existing = [(''us-east-1'', ''perfkit_queue'')], waiting = []\<rparr>)"
proof -
  let ?w = "\<lparr>existing = [(''us-east-1'', ''perfkit_queue'')], waiting = []\<rparr>"
  let ?c = "\<lparr>region_name = ''us-east-1'', queue_name = ''perfkit_queue'',
                  queue = queue_url ''us-east-1'' ''perfkit_queue''\<rparr>"
  have a: "get_queue_by_name local_sqs ''us-west-1'' ''perfkit_queue'' ?w = (Inl QueueNotFound, ?w)"
    by (simp add: local_sqs_def)
  have b: "AWSSQSInterface_init local_sqs ''us-east-1'' ''perfkit_queue'' ?w = (Inr ?c, ?w)"
    by (simp add: AWSSQSInterface_init_def local_sqs_def)
  from AWSSQSInterface_init_resolves_queue
         [of local_sqs "''us-west-1''" "''perfkit_queue''" ?w QueueNotFound ?w] a
  have "AWSSQSInterface_init local_sqs ''us-west-1'' ''perfkit_queue'' ?w = (Inl QueueNotFound, ?w)"
    by blast
  moreover from AWSSQSInterface_init_resolves_queue
         [of local_sqs "''us-east-1''" "''perfkit_queue''" ?w _ ?w ?c] b
  have "get_queue_by_name local_sqs ''us-east-1'' ''perfkit_queue'' ?w = (Inr (queue ?c), ?w)"
    by blast
  ultimately show ?thesis by blast
qed

text \<open>
  Claim C9. Acknowledging needs a response that holds a message: on a response without
  a \<open>Messages\<close> entry (such as a pull may return) \<open>_acknowledge_received_message\<close> raises
  \<open>KeyError\<close>, and on one whose list of messages is empty it raises \<open>IndexError\<close>; in both
  cases nothing is deleted from the queue.
\<close>

theorem acknowledge_without_message_raises:
  "(map_of response ''Messages'' = None \<longrightarrow>
      acknowledge_received_message boto3 self (PyDict response) w = (Inl (KeyError ''Messages''), w)) \<and>
   (map_of response ''Messages'' = Some (PyList []) \<longrightarrow>
      acknowledge_received_message boto3 self (PyDict response) w = (Inl IndexError, w)) \<and>
   (pull_message boto3 TIMEOUT self w0 = (Inr (PyDict response), w) \<and>
    map_of response ''Messages'' = None \<longrightarrow>
      acknowledge_received_message boto3 self (PyDict response) w = (Inl (KeyError ''Messages''), w))"
  by (simp add: acknowledge_received_message_def)

theorem acknowledge_without_message_raises_witness:
  "acknowledge_received_message local_sqs
      \<lparr>region_name = ''us-west-1'', queue_name = ''q'', queue = queue_url ''us-west-1'' ''q''\<rparr>
      (PyDict [(''ResponseMetadata'', PyDict [])])
      \<lparr>existing = [(''us-west-1'', ''q'')], waiting = []\<rparr> =
     (Inl (KeyError ''Messages''), \<lparr>existing = [(''us-west-1'', ''q'')], waiting = []\<rparr>) \<and>
   acknowledge_received_message local_sqs
      \<lparr>region_name = ''us-west-1'', queue_name = ''q'', queue = queue_url ''us-west-1'' ''q''\<rparr>
      (PyDict [(''Messages'', PyList [])])
      \<lparr>existing = [(''us-west-1'', ''q'')], waiting = []\<rparr> =
     (Inl IndexError, \<lparr>existing = [(''us-west-1'', ''q'')], waiting = []\<rparr>)"
proof -
  let ?w = "\<lparr>existing = [(''us-west-1'', ''q'')], waiting = []\<rparr>"
  let ?c = "\<lparr>region_name = ''us-west-1'', queue_name = ''q'', queue = queue_url ''us-west-1'' ''q''\<rparr>"
  have a: "pull_message local_sqs 10 ?c ?w = (Inr (PyDict [(''ResponseMetadata'', PyDict [])]), ?w) \<and>
     map_of [(''ResponseMetadata'', PyDict [])] ''Messages'' = None"
    by (simp add: pull_message_def local_sqs_def)
  have b: "map_of [(''Messages'', PyList [])] ''Messages'' = Some (PyList [])" by simp
  from acknowledge_without_message_raises
         [of "[(''ResponseMetadata'', PyDict [])]" local_sqs ?c ?w 10 ?w] a
  have "acknowledge_received_message local_sqs ?c (PyDict [(''ResponseMetadata'', PyDict [])]) ?w =
     (Inl (KeyError ''Messages''), ?w)"
    by blast
  moreover from acknowledge_without_message_raises
         [of "[(''Messages'', PyList [])]" local_sqs ?c ?w 10 ?w] b
  have "acknowledge_received_message local_sqs ?c (PyDict [(''Messages'', PyList [])]) ?w =
     (Inl IndexError, ?w)"
    by blast
  ultimately show ?thesis by blast
qed

end
